theory Spec2Isabelle
  imports Main
begin

section \<open>Client-side token storage (utils/api.js)\<close>

text \<open>
  The browser's \<^verbatim>\<open>localStorage\<close> is a dictionary from keys to strings;
  \<^verbatim>\<open>getItem\<close> of a missing key is \<^verbatim>\<open>null\<close> (here \<open>None\<close>).
  A JavaScript value that is either a string or \<^verbatim>\<open>undefined\<close> is a
  \<open>string option\<close>; \<^verbatim>\<open>setItem\<close> and template literals turn it into a
  string, \<^verbatim>\<open>undefined\<close> becoming the text \<^verbatim>\<open>undefined\<close>.
\<close>

type_synonym storage = "string \<rightharpoonup> string"

definition TOKEN_KEY :: string where
  "TOKEN_KEY = ''access_token''"

definition REFRESH_TOKEN_KEY :: string where
  "REFRESH_TOKEN_KEY = ''refresh_token''"

fun js_string :: "string option \<Rightarrow> string" where
  "js_string None = ''undefined''"
| "js_string (Some s) = s"

text \<open>Truthiness of what \<^verbatim>\<open>getItem\<close> returns: neither \<^verbatim>\<open>null\<close> nor the empty string.\<close>

fun truthy :: "string option \<Rightarrow> bool" where
  "truthy None = False"
| "truthy (Some s) = (s \<noteq> [])"

text \<open>A request configuration: the fields of the axios config the interceptors read or write.\<close>

record request =
  http_method :: string
  url :: string
  authorization :: "string option"
  retry :: bool

text \<open>
  What comes back from the network: nothing at all (network failure, timeout), or an HTTP
  status with a body. A body is text that does not parse as JSON (the empty body is the
  empty text), the JSON value \<^verbatim>\<open>null\<close>, a JSON boolean, number or string (of which
  only its JavaScript truthiness is kept), or a JSON object or array, given by its named
  members (their values as text; an array has none).
\<close>

datatype body = NotJson string | JsonNull | JsonScalar bool | JsonObj "(string \<times> string) list"

datatype http_reply = NoReply | Reply nat body

text \<open>
  The backend is the environment: its answer to a request of the API client and its answer
  to a call of the refresh endpoint may depend on the request and on how many network
  events came before.
\<close>

record backend =
  respond :: "nat \<Rightarrow> request \<Rightarrow> http_reply"
  refresh_endpoint :: "nat \<Rightarrow> string \<Rightarrow> http_reply"

datatype net_event = Sent request | Refresh string

text \<open>
  The state the client code mutates: \<^verbatim>\<open>localStorage\<close>, \<^verbatim>\<open>window.location.href\<close>,
  and the trace of network events, in order.
\<close>

record client =
  localStorage :: storage
  href :: string
  log :: "net_event list"

definition getAccessToken :: "client \<Rightarrow> string option" where
  "getAccessToken st = localStorage st TOKEN_KEY"

definition getRefreshToken :: "client \<Rightarrow> string option" where
  "getRefreshToken st = localStorage st REFRESH_TOKEN_KEY"

definition setTokens :: "string option \<Rightarrow> string option \<Rightarrow> client \<Rightarrow> client" where
  "setTokens accessToken refreshToken st =
     st\<lparr>localStorage := (localStorage st)
            (TOKEN_KEY \<mapsto> js_string accessToken, REFRESH_TOKEN_KEY \<mapsto> js_string refreshToken)\<rparr>"

definition clearTokens :: "client \<Rightarrow> client" where
  "clearTokens st =
     st\<lparr>localStorage := (localStorage st)(TOKEN_KEY := None, REFRESH_TOKEN_KEY := None)\<rparr>"


section \<open>The interceptors of the API client\<close>

definition request_interceptor :: "client \<Rightarrow> request \<Rightarrow> request" where
  "request_interceptor st config =
     (case getAccessToken st of
        None \<Rightarrow> config
      | Some token \<Rightarrow>
          if token \<noteq> [] then config\<lparr>authorization := Some (''Bearer '' @ token)\<rparr> else config)"

text \<open>
  How a call of the API client ends: the promise resolves with a response (status and
  data), or it rejects: with the error of a response outside 2xx, with an error that has no
  response, or with whatever the refresh attempt threw.
\<close>

datatype failure = HttpError nat body | NetworkError | RefreshError

type_synonym outcome = "failure + (nat \<times> body)"

text \<open>
  The \<^verbatim>\<open>try\<close> block of the response interceptor up to the destructuring of
  \<^verbatim>\<open>response.data\<close>: either it throws, or \<^verbatim>\<open>access\<close> is bound (to a string or
  to \<^verbatim>\<open>undefined\<close>).

  \<^verbatim>\<open>utils/api.js\<close> calls \<^verbatim>\<open>fetch\<close>, whose promise rejects only when there is
  no reply, whatever the status; \<^verbatim>\<open>refreshResponse.json()\<close> rejects on a body that is
  not JSON, and destructuring \<^verbatim>\<open>null\<close> throws. A boolean, number or string has no
  \<^verbatim>\<open>access\<close> member, so \<^verbatim>\<open>access\<close> is \<^verbatim>\<open>undefined\<close> there.
\<close>

datatype refreshed = Thrown | Access "string option"

fun refresh_fetch :: "http_reply \<Rightarrow> refreshed" where
  "refresh_fetch NoReply = Thrown"
| "refresh_fetch (Reply status (NotJson text)) = Thrown"
| "refresh_fetch (Reply status JsonNull) = Thrown"
| "refresh_fetch (Reply status (JsonScalar b)) = Access None"
| "refresh_fetch (Reply status (JsonObj data)) = Access (map_of data ''access'')"

text \<open>
  The other copy of the file (part 005) calls \<^verbatim>\<open>axios.post\<close>, whose promise rejects
  when there is no reply and when the status is outside 2xx; a body that is not JSON is
  kept as text, which has no \<^verbatim>\<open>access\<close> member.
\<close>

fun refresh_axios :: "http_reply \<Rightarrow> refreshed" where
  "refresh_axios NoReply = Thrown"
| "refresh_axios (Reply status data) =
     (if 200 \<le> status \<and> status < 300
      then (case data of
              NotJson text \<Rightarrow> Access None
            | JsonNull \<Rightarrow> Thrown
            | JsonScalar b \<Rightarrow> Access None
            | JsonObj members \<Rightarrow> Access (map_of members ''access''))
      else Thrown)"

text \<open>
  A call \<^verbatim>\<open>api(config)\<close>: the request interceptor, the dispatch, and on an error the
  response interceptor, which may refresh and call \<^verbatim>\<open>api(originalRequest)\<close> again.
  The parameter \<open>refresh\<close> is the refresh call of the file at hand.
\<close>

function api :: "(http_reply \<Rightarrow> refreshed) \<Rightarrow> backend \<Rightarrow> request \<Rightarrow> client \<Rightarrow> outcome \<times> client" where
  "api refresh env config st =
     (let config1 = request_interceptor st config;
          st1 = st\<lparr>log := log st @ [Sent config1]\<rparr>
      in case respond env (length (log st)) config1 of
           NoReply \<Rightarrow> (Inl NetworkError, st1)
         | Reply status data \<Rightarrow>
             if 200 \<le> status \<and> status < 300 then (Inr (status, data), st1)
             else if status = 401 \<and> \<not> retry config1 then
               (let originalRequest = config1\<lparr>retry := True\<rparr>;
                    refreshToken = getRefreshToken st1
                in case refreshToken of
                     Some rt \<Rightarrow>
                       if rt \<noteq> [] then
                         (let st2 = st1\<lparr>log := log st1 @ [Refresh rt]\<rparr>
                          in case refresh (refresh_endpoint env (length (log st1)) rt) of
                               Access access \<Rightarrow>
                                 api refresh env
                                   (originalRequest\<lparr>authorization :=
                                      Some (''Bearer '' @ js_string access)\<rparr>)
                                   (setTokens access refreshToken st2)
                             | Thrown \<Rightarrow>
                                 (Inl RefreshError, (clearTokens st2)\<lparr>href := ''/login''\<rparr>))
                       else (Inl (HttpError status data), (clearTokens st1)\<lparr>href := ''/login''\<rparr>)
                   | None \<Rightarrow> (Inl (HttpError status data), (clearTokens st1)\<lparr>href := ''/login''\<rparr>))
             else (Inl (HttpError status data), st1))"
  by pat_completeness auto
termination
  by (relation "measure (\<lambda>(refresh, env, config, st). if retry config then 0 else 1)")
    (auto simp: request_interceptor_def split: option.splits if_splits)

declare api.simps [simp del]

definition api_js :: "backend \<Rightarrow> request \<Rightarrow> client \<Rightarrow> outcome \<times> client" where
  "api_js = api refresh_fetch"

definition api_part_005 :: "backend \<Rightarrow> request \<Rightarrow> client \<Rightarrow> outcome \<times> client" where
  "api_part_005 = api refresh_axios"

text \<open>How a reply settles the promise when the response interceptor does not step in.\<close>

fun settle :: "http_reply \<Rightarrow> outcome" where
  "settle NoReply = Inl NetworkError"
| "settle (Reply status data) =
     (if 200 \<le> status \<and> status < 300 then Inr (status, data) else Inl (HttpError status data))"

text \<open>The refresh calls and the dispatched requests of a trace, each in order.\<close>

fun refreshes :: "net_event list \<Rightarrow> string list" where
  "refreshes [] = []"
| "refreshes (Refresh rt # l) = rt # refreshes l"
| "refreshes (Sent r # l) = refreshes l"

fun dispatches :: "net_event list \<Rightarrow> request list" where
  "dispatches [] = []"
| "dispatches (Sent r # l) = r # dispatches l"
| "dispatches (Refresh rt # l) = dispatches l"

text \<open>
  Concrete inputs: a request for the event list, a client that holds a token pair, and
  three backends. The first rejects every API request and issues a new access token at the
  refresh endpoint; the second accepts the new access token only; the third rejects every
  API request and rejects the refresh token too, with the JSON error body of a 401.
\<close>

definition events_request :: request where
  "events_request = \<lparr>http_method = ''get'', url = ''/events/'', authorization = None, retry = False\<rparr>"

definition signed_in :: client where
  "signed_in =
     \<lparr>localStorage = [TOKEN_KEY \<mapsto> ''old-access'', REFRESH_TOKEN_KEY \<mapsto> ''refresh-1''],
      href = ''/events'', log = []\<rparr>"

definition rejecting_backend :: backend where
  "rejecting_backend =
     \<lparr>respond = (\<lambda>n r. Reply 401 (JsonObj [(''detail'', ''token not valid'')])),
      refresh_endpoint = (\<lambda>n t. Reply 200 (JsonObj [(''access'', ''new-access'')]))\<rparr>"

definition renewing_backend :: backend where
  "renewing_backend =
     \<lparr>respond = (\<lambda>n r. if authorization r = Some ''Bearer new-access''
                         then Reply 200 (JsonObj [(''email'', ''ada@example.org'')])
                         else Reply 401 (JsonObj [(''detail'', ''token not valid'')])),
      refresh_endpoint = (\<lambda>n t. Reply 200 (JsonObj [(''access'', ''new-access'')]))\<rparr>"

definition revoked_backend :: backend where
  "revoked_backend =
     \<lparr>respond = (\<lambda>n r. Reply 401 (JsonObj [(''detail'', ''token not valid'')])),
      refresh_endpoint =
        (\<lambda>n t. Reply 401 (JsonObj [(''detail'', ''Token is invalid or expired''),
                                   (''code'', ''token_not_valid'')]))\<rparr>"


section \<open>Session start (contexts/AuthContext.jsx)\<close>









section \<open>The client-side filter of the events page (pages/EventsPage.jsx)\<close>

text \<open>
  An element of the fetched \<^verbatim>\<open>events\<close> array, with the fields the filter reads.
  \<open>date_time\<close> is the time value of \<^verbatim>\<open>new Date(event.date_time)\<close> in milliseconds,
  \<open>None\<close> for an invalid date (whose time value is NaN). Strings are ASCII.
\<close>

record event =
  title :: string
  location :: string
  description :: "string option"
  date_time :: "int option"

text \<open>\<^verbatim>\<open>isAfter\<close> and \<^verbatim>\<open>isBefore\<close> of date-fns compare time values; a comparison with NaN is false.\<close>

fun isAfter :: "int option \<Rightarrow> int option \<Rightarrow> bool" where
  "isAfter (Some d) (Some c) = (d > c)"
| "isAfter _ _ = False"

fun isBefore :: "int option \<Rightarrow> int option \<Rightarrow> bool" where
  "isBefore (Some d) (Some c) = (d < c)"
| "isBefore _ _ = False"

definition toLowerCase :: "string \<Rightarrow> string" where
  "toLowerCase s =
     map (\<lambda>c. if 65 \<le> (of_char c :: nat) \<and> (of_char c :: nat) \<le> 90
              then char_of ((of_char c :: nat) + 32) else c) s"

fun includes_str :: "string \<Rightarrow> string \<Rightarrow> bool" where
  "includes_str [] t = (t = [])"
| "includes_str (c # s) t = (take (length t) (c # s) = t \<or> includes_str s t)"

definition matchesFilter :: "string \<Rightarrow> int \<Rightarrow> event \<Rightarrow> bool" where
  "matchesFilter flt now ev =
     (let eventDate = date_time ev
      in if flt = ''upcoming'' then isAfter eventDate (Some now)
         else if flt = ''past'' then isBefore eventDate (Some now)
         else True)"

definition matchesSearch :: "string \<Rightarrow> event \<Rightarrow> bool" where
  "matchesSearch searchTerm ev =
     (searchTerm = [] \<or>
      includes_str (toLowerCase (title ev)) (toLowerCase searchTerm) \<or>
      includes_str (toLowerCase (location ev)) (toLowerCase searchTerm) \<or>
      (case description ev of
         None \<Rightarrow> False
       | Some d \<Rightarrow> d \<noteq> [] \<and> includes_str (toLowerCase d) (toLowerCase searchTerm)))"

definition filteredEvents :: "event list \<Rightarrow> string \<Rightarrow> string \<Rightarrow> int \<Rightarrow> event list" where
  "filteredEvents events flt searchTerm now =
     filter (\<lambda>ev. matchesFilter flt now ev \<and> matchesSearch searchTerm ev) events"

text \<open>Two fetched events: one at time 1000, one after it.\<close>

definition standup :: event where
  "standup = \<lparr>title = ''Standup'', location = ''Room 1'', description = None, date_time = Some 1000\<rparr>"

definition later :: event where
  "later = \<lparr>title = ''Review'', location = ''Room 2'', description = Some ''sprint'', date_time = Some 2000\<rparr>"

section \<open>The access-scoped query layer and share links (backend)\<close>

text \<open>
  Modelled from the spec: the event store of the backend (its models and views) is not
  among the sources. An Event has one owner, a title, a scheduled time, a location, an
  optional description and an optional share identifier (section 3); a User has a display
  name.
\<close>

type_synonym identity = nat

record stored_event =
  event_id :: nat
  owner :: identity
  ev_title :: string
  ev_time :: int
  ev_location :: string
  ev_description :: "string option"
  share_identifier :: "string option"

text \<open>
  Modelled from the spec: the event store with the credential store beside it, as far as
  the operations below read them: the stored events and the display name of each user.
\<close>

record event_store =
  stored :: "stored_event list"
  display_name :: "identity \<Rightarrow> string"

text \<open>
  Modelled from the spec: the error taxonomy of section 7, and the Forbidden signal that
  sections 4.4 and 6 name as the one not to be used for events of another owner.
\<close>

datatype error = ValidationError | Unauthenticated | NotFound | Forbidden | RateLimited | Internal

text \<open>
  Modelled from the spec: the ownership scope that section 2 puts before every event read
  and write: the events of the store that the requesting identity owns.
\<close>

definition owned_by :: "identity \<Rightarrow> stored_event list \<Rightarrow> stored_event list" where
  "owned_by ident es = filter (\<lambda>e. owner e = ident) es"

text \<open>
  Modelled from the spec: the filtering discipline of section 4.4. The query parameters of a
  client are pairs of a key and a value; the allow-list, which the sources do not hold, is a
  table from the filterable keys to the test each one stands for. A key outside the
  allow-list is ignored; the filters of the allow-listed keys are applied.
\<close>

type_synonym params = "(string \<times> string) list"

type_synonym allow_list = "string \<rightharpoonup> (string \<Rightarrow> stored_event \<Rightarrow> bool)"

definition passes_filters :: "allow_list \<Rightarrow> params \<Rightarrow> stored_event \<Rightarrow> bool" where
  "passes_filters allowed ps e =
     list_all (\<lambda>(k, v). case allowed k of None \<Rightarrow> True | Some test \<Rightarrow> test v e) ps"

text \<open>
  Modelled from the spec: the operation list(identity) of section 4.4, which returns the
  events owned by the identity, narrowed by the allow-listed filters of the request.
\<close>

definition list_events :: "allow_list \<Rightarrow> event_store \<Rightarrow> identity \<Rightarrow> params \<Rightarrow> stored_event list" where
  "list_events allowed store ident ps =
     filter (passes_filters allowed ps) (owned_by ident (stored store))"

text \<open>
  Modelled from the spec: the operation get(identity, eventId) of section 4.4: the event of
  that id within the ownership scope of the identity, NotFound when there is none there.
\<close>

definition get_event :: "event_store \<Rightarrow> identity \<Rightarrow> nat \<Rightarrow> error + stored_event" where
  "get_event store ident eid =
     (case find (\<lambda>e. event_id e = eid) (owned_by ident (stored store)) of
        None \<Rightarrow> Inl NotFound
      | Some e \<Rightarrow> Inr e)"

text \<open>
  Modelled from the spec: the update of section 4.4, here of the title, which requires
  ownership (NotFound otherwise) and a non-empty title (section 3).
\<close>

definition update_title ::
  "event_store \<Rightarrow> identity \<Rightarrow> nat \<Rightarrow> string \<Rightarrow> (error + stored_event) \<times> event_store" where
  "update_title store ident eid new_title =
     (case get_event store ident eid of
        Inl err \<Rightarrow> (Inl err, store)
      | Inr e \<Rightarrow>
          if new_title = [] then (Inl ValidationError, store)
          else (Inr (e\<lparr>ev_title := new_title\<rparr>),
                store\<lparr>stored := map (\<lambda>x. if x = e then e\<lparr>ev_title := new_title\<rparr> else x)
                                     (stored store)\<rparr>))"

text \<open>
  Modelled from the spec: the format of a share identifier, "fixed length, restricted
  character set" (section 6); the security notes of the repository give it as a
  36-character UUID, that is lower-case hexadecimal digits and hyphens.
\<close>

definition SHARE_ID_LENGTH :: nat where
  "SHARE_ID_LENGTH = 36"

text \<open>
  Modelled from the spec: the restricted character set of a share identifier, the
  characters of a UUID in its usual lower-case form.
\<close>

definition share_id_char :: "char \<Rightarrow> bool" where
  "share_id_char c = (c \<in> set ''0123456789abcdef-'')"

text \<open>
  Modelled from the spec: the format validation of section 4.5, fixed length and every
  character from the restricted set.
\<close>

definition valid_share_id :: "string \<Rightarrow> bool" where
  "valid_share_id s = (length s = SHARE_ID_LENGTH \<and> list_all share_id_char s)"

text \<open>
  Modelled from the spec: the public-safe fields of an event (section 4.5): title, time,
  location, description and the display name of the owner.
\<close>

record public_event =
  pub_title :: string
  pub_time :: int
  pub_location :: string
  pub_description :: "string option"
  pub_owner_name :: string

text \<open>
  Modelled from the spec: the projection of a stored event to its public-safe fields; the
  share identifier, the owner identity and the event id are left out.
\<close>

definition public_view :: "event_store \<Rightarrow> stored_event \<Rightarrow> public_event" where
  "public_view store e =
     \<lparr>pub_title = ev_title e, pub_time = ev_time e, pub_location = ev_location e,
      pub_description = ev_description e, pub_owner_name = display_name store (owner e)\<rparr>"

text \<open>
  Modelled from the spec: the operation generate(identity, eventId) of section 4.5. It
  requires ownership through get; the random identifier is drawn outside and handed in as
  \<open>fresh\<close>. The spec leaves open whether a repeated call returns the existing identifier
  or mints a new one in its place, so the policy is a parameter.
\<close>

datatype regenerate = KeepExisting | MintNew

text \<open>
  Modelled from the spec: storing a share identifier on one event of the store; the other
  events are left as they are.
\<close>

definition set_share_id :: "stored_event \<Rightarrow> string \<Rightarrow> stored_event list \<Rightarrow> stored_event list" where
  "set_share_id e sid es = map (\<lambda>x. if x = e then e\<lparr>share_identifier := Some sid\<rparr> else x) es"

text \<open>
  Modelled from the spec: generate itself. Under \<open>KeepExisting\<close> an event that has an
  identifier keeps it; otherwise the drawn identifier is stored on the event, in place of
  any earlier one.
\<close>

definition generate ::
  "regenerate \<Rightarrow> event_store \<Rightarrow> identity \<Rightarrow> nat \<Rightarrow> string \<Rightarrow> (error + string) \<times> event_store" where
  "generate policy store ident eid fresh =
     (case get_event store ident eid of
        Inl err \<Rightarrow> (Inl err, store)
      | Inr e \<Rightarrow>
          (case (policy, share_identifier e) of
             (KeepExisting, Some sid) \<Rightarrow> (Inr sid, store)
           | _ \<Rightarrow> (Inr fresh, store\<lparr>stored := set_share_id e fresh (stored store)\<rparr>)))"

text \<open>
  Modelled from the spec: the operation resolve(shareId) of section 4.5, which validates
  the format before any storage lookup and makes no ownership check. The second component
  lists the lookups made in the storage layer.
\<close>

datatype storage_access = Lookup string

definition resolve :: "event_store \<Rightarrow> string \<Rightarrow> (error + public_event) \<times> storage_access list" where
  "resolve store shareId =
     (if \<not> valid_share_id shareId then (Inl NotFound, [])
      else (case find (\<lambda>e. share_identifier e = Some shareId) (stored store) of
              None \<Rightarrow> (Inl NotFound, [Lookup shareId])
            | Some e \<Rightarrow> (Inr (public_view store e), [Lookup shareId])))"

text \<open>
  Modelled from the spec: the invariant of share links (section 3): an identifier stands
  for exactly one event, and every identifier in the store has the fixed format.
\<close>

definition share_links_ok :: "stored_event list \<Rightarrow> bool" where
  "share_links_ok es =
     (\<forall>x \<in> set es. \<forall>sid. share_identifier x = Some sid \<longrightarrow>
        valid_share_id sid \<and> (\<forall>y \<in> set es. share_identifier y = Some sid \<longrightarrow> y = x))"

text \<open>
  A store with two users: Ada (identity 1) owns the events 1 and 3, Bob (identity 2) owns
  the event 2. The allow-list has one filter, on the title.
\<close>

definition ada_standup :: stored_event where
  "ada_standup =
     \<lparr>event_id = 1, owner = 1, ev_title = ''Standup'', ev_time = 1000, ev_location = ''Room 1'',
      ev_description = None, share_identifier = None\<rparr>"

definition bob_party :: stored_event where
  "bob_party =
     \<lparr>event_id = 2, owner = 2, ev_title = ''Party'', ev_time = 2000, ev_location = ''Home'',
      ev_description = Some ''bring cake'', share_identifier = None\<rparr>"

definition ada_review :: stored_event where
  "ada_review =
     \<lparr>event_id = 3, owner = 1, ev_title = ''Review'', ev_time = 3000, ev_location = ''Room 2'',
      ev_description = None, share_identifier = None\<rparr>"

definition two_users :: event_store where
  "two_users =
     \<lparr>stored = [ada_standup, bob_party, ada_review],
      display_name = (\<lambda>u. if u = 1 then ''Ada'' else ''Bob'')\<rparr>"

definition title_filter :: allow_list where
  "title_filter = [''title'' \<mapsto> (\<lambda>v e. ev_title e = v)]"

definition fresh_id :: string where
  "fresh_id = ''0f8fad5b-d9cb-469f-a165-70867728950e''"

section \<open>Properties of the session manager\<close>

lemma retry_request_interceptor [simp]:
  "retry (request_interceptor st config) = retry config"
  by (simp add: request_interceptor_def split: option.split)

lemma api_retried:
  assumes "retry config"
  shows "api refresh env config st =
           (settle (respond env (length (log st)) (request_interceptor st config)),
            st\<lparr>log := log st @ [Sent (request_interceptor st config)]\<rparr>)"
  using assms by (subst api.simps) (auto simp add: Let_def split: http_reply.split)

lemma keys_distinct [simp]: "TOKEN_KEY \<noteq> REFRESH_TOKEN_KEY" "REFRESH_TOKEN_KEY \<noteq> TOKEN_KEY"
  by (simp_all add: TOKEN_KEY_def REFRESH_TOKEN_KEY_def)

lemma getAccessToken_setTokens [simp]:
  "getAccessToken (setTokens a r st) = Some (js_string a)"
  by (simp add: getAccessToken_def setTokens_def)

lemma getRefreshToken_setTokens [simp]:
  "getRefreshToken (setTokens a r st) = Some (js_string r)"
  by (simp add: getRefreshToken_def setTokens_def)

lemma log_setTokens [simp]: "log (setTokens a r st) = log st"
  by (simp add: setTokens_def)

lemma getRefreshToken_log [simp]: "getRefreshToken (st\<lparr>log := l\<rparr>) = getRefreshToken st"
  by (simp add: getRefreshToken_def)

lemma request_interceptor_bearer:
  "request_interceptor (setTokens a r st) (c\<lparr>authorization := Some (''Bearer '' @ js_string a)\<rparr>)
     = c\<lparr>authorization := Some (''Bearer '' @ js_string a)\<rparr>"
  by (simp add: request_interceptor_def)

lemma api_first_401_step:
  assumes "\<not> retry config" and "getRefreshToken st = Some rt" and "rt \<noteq> []"
    and "respond env (length (log st)) (request_interceptor st config) = Reply 401 d"
  shows "api refresh env config st =
           (case refresh (refresh_endpoint env (Suc (length (log st))) rt) of
              Thrown \<Rightarrow>
                (Inl RefreshError,
                 (clearTokens (st\<lparr>log := log st @ [Sent (request_interceptor st config), Refresh rt]\<rparr>))
                   \<lparr>href := ''/login''\<rparr>)
            | Access a \<Rightarrow>
                api refresh env
                  ((request_interceptor st config)
                     \<lparr>retry := True, authorization := Some (''Bearer '' @ js_string a)\<rparr>)
                  (setTokens a (Some rt)
                     (st\<lparr>log := log st @ [Sent (request_interceptor st config), Refresh rt]\<rparr>)))"
  using assms by (subst api.simps) (simp add: Let_def split: refreshed.split)

lemma api_refresh_thrown:
  assumes "\<not> retry config" and "getRefreshToken st = Some rt" and "rt \<noteq> []"
    and "respond env (length (log st)) (request_interceptor st config) = Reply 401 d"
    and "refresh (refresh_endpoint env (Suc (length (log st))) rt) = Thrown"
  shows "api refresh env config st =
           (Inl RefreshError,
            (clearTokens (st\<lparr>log := log st @ [Sent (request_interceptor st config), Refresh rt]\<rparr>))
              \<lparr>href := ''/login''\<rparr>)"
  using api_first_401_step [OF assms(1-4), of refresh] assms(5) by simp

lemma api_refresh_access:
  assumes "\<not> retry config" and "getRefreshToken st = Some rt" and "rt \<noteq> []"
    and "respond env (length (log st)) (request_interceptor st config) = Reply 401 d"
    and "refresh (refresh_endpoint env (Suc (length (log st))) rt) = Access a"
  shows "api refresh env config st =
           (settle (respond env (Suc (Suc (length (log st))))
                      ((request_interceptor st config)
                         \<lparr>retry := True, authorization := Some (''Bearer '' @ js_string a)\<rparr>)),
            (setTokens a (Some rt) st)
              \<lparr>log := log st @
                 [Sent (request_interceptor st config), Refresh rt,
                  Sent ((request_interceptor st config)
                          \<lparr>retry := True, authorization := Some (''Bearer '' @ js_string a)\<rparr>)]\<rparr>)"
proof -
  let ?c1 = "request_interceptor st config"
  let ?c3 = "?c1\<lparr>retry := True, authorization := Some (''Bearer '' @ js_string a)\<rparr>"
  let ?st3 = "setTokens a (Some rt) (st\<lparr>log := log st @ [Sent ?c1, Refresh rt]\<rparr>)"
  have "api refresh env config st = api refresh env ?c3 ?st3"
    using api_first_401_step [OF assms(1-4), of refresh] assms(5) by simp
  moreover have "retry ?c3" by simp
  moreover have "request_interceptor ?st3 ?c3 = ?c3"
    by (rule request_interceptor_bearer)
  moreover have "?st3\<lparr>log := log ?st3 @ [Sent ?c3]\<rparr> =
      (setTokens a (Some rt) st)\<lparr>log := log st @ [Sent ?c1, Refresh rt, Sent ?c3]\<rparr>"
    by (simp add: setTokens_def)
  moreover have "length (log ?st3) = Suc (Suc (length (log st)))" by simp
  ultimately show ?thesis
    by (simp only: api_retried)
qed


lemma refreshes_append [simp]: "refreshes (l @ m) = refreshes l @ refreshes m"
  by (induction l rule: refreshes.induct) simp_all

lemma dispatches_append [simp]: "dispatches (l @ m) = dispatches l @ dispatches m"
  by (induction l rule: dispatches.induct) simp_all

lemma log_clearTokens [simp]: "log (clearTokens st) = log st"
  by (simp add: clearTokens_def)

lemma api_trace:
  assumes "\<not> retry config" and "getRefreshToken st = Some rt" and "rt \<noteq> []"
    and "respond env (length (log st)) (request_interceptor st config) = Reply 401 d"
  shows "log (snd (api refresh env config st)) =
           log st @
           (case refresh (refresh_endpoint env (Suc (length (log st))) rt) of
              Thrown \<Rightarrow> [Sent (request_interceptor st config), Refresh rt]
            | Access a \<Rightarrow>
                [Sent (request_interceptor st config), Refresh rt,
                 Sent ((request_interceptor st config)
                         \<lparr>retry := True, authorization := Some (''Bearer '' @ js_string a)\<rparr>)])"
proof (cases "refresh (refresh_endpoint env (Suc (length (log st))) rt)")
  case Thrown
  then show ?thesis using api_refresh_thrown [OF assms, of refresh] by simp
next
  case (Access a)
  then show ?thesis using api_refresh_access [OF assms, of refresh a] by simp
qed

lemma api_refresh_token_frame:
  "getRefreshToken (snd (api refresh env config st)) = getRefreshToken st \<or>
   getRefreshToken (snd (api refresh env config st)) = None"
proof (cases "retry config")
  case True
  then show ?thesis by (simp add: api_retried)
next
  case False
  then show ?thesis
    apply (subst api.simps, subst (2) api.simps)
    apply (auto simp: Let_def api_retried getRefreshToken_def clearTokens_def setTokens_def
                split: http_reply.split option.split refreshed.split)
    done
qed


lemma getAccessToken_log [simp]: "getAccessToken (st\<lparr>log := l\<rparr>) = getAccessToken st"
  by (simp add: getAccessToken_def)

lemma localStorage_setTokens_same:
  assumes "getRefreshToken st = Some rt"
  shows "localStorage (setTokens a (Some rt) st) = (localStorage st)(TOKEN_KEY \<mapsto> js_string a)"
proof
  fix k
  show "localStorage (setTokens a (Some rt) st) k = ((localStorage st)(TOKEN_KEY \<mapsto> js_string a)) k"
    using assms by (simp add: setTokens_def getRefreshToken_def)
qed

lemma href_setTokens [simp]: "href (setTokens a r st) = href st"
  by (simp add: setTokens_def)

lemma tokens_clearTokens [simp]:
  "getAccessToken (clearTokens st) = None" "getRefreshToken (clearTokens st) = None"
  by (simp_all add: getAccessToken_def getRefreshToken_def clearTokens_def)

lemma tokens_href [simp]:
  "getAccessToken (st\<lparr>href := h\<rparr>) = getAccessToken st"
  "getRefreshToken (st\<lparr>href := h\<rparr>) = getRefreshToken st"
  by (simp_all add: getAccessToken_def getRefreshToken_def)

lemma refresh_thrown_discards_tokens:
  assumes "\<not> retry config" and "getRefreshToken st = Some rt" and "rt \<noteq> []"
    and "respond env (length (log st)) (request_interceptor st config) = Reply 401 d"
    and "refresh (refresh_endpoint env (Suc (length (log st))) rt) = Thrown"
  shows "fst (api refresh env config st) = Inl RefreshError \<and>
         getAccessToken (snd (api refresh env config st)) = None \<and>
         getRefreshToken (snd (api refresh env config st)) = None \<and>
         href (snd (api refresh env config st)) = ''/login''"
  using api_refresh_thrown [where refresh = refresh, OF assms] by simp

lemma refresh_rejected_part_005:
  assumes "\<not> retry config" and "getRefreshToken st = Some rt" and "rt \<noteq> []"
    and "respond env (length (log st)) (request_interceptor st config) = Reply 401 d"
    and "refresh_endpoint env (Suc (length (log st))) rt = Reply status data"
    and "\<not> (200 \<le> status \<and> status < 300)"
  shows "fst (api_part_005 env config st) = Inl RefreshError \<and>
         getAccessToken (snd (api_part_005 env config st)) = None \<and>
         getRefreshToken (snd (api_part_005 env config st)) = None \<and>
         href (snd (api_part_005 env config st)) = ''/login''"
proof -
  have "refresh_axios (refresh_endpoint env (Suc (length (log st))) rt) = Thrown"
    using assms(5,6) by auto
  then show ?thesis
    unfolding api_part_005_def
    by (rule refresh_thrown_discards_tokens [where refresh = refresh_axios, OF assms(1-4)])
qed





text \<open>
  Claim C2. A request that has not been retried yet and fails with status 401 while a
  non-empty refresh token is stored makes the session manager call the refresh endpoint
  exactly once, with the stored refresh token. When the refresh attempt yields an access
  token, the original request is dispatched exactly once more, marked as retried and
  carrying the new access token; when the attempt throws, it is not dispatched again. No
  third dispatch happens whatever the backend answers, also when it rejects the retried
  request. This holds for both copies of the API client.
\<close>

theorem refresh_once_retry_once:
  assumes "\<not> retry config" and "getRefreshToken st = Some rt" and "rt \<noteq> []"
    and "respond env (length (log st)) (request_interceptor st config) = Reply 401 d"
  shows
    "(refreshes (log (snd (api_js env config st))) = refreshes (log st) @ [rt] \<and>
      dispatches (log (snd (api_js env config st))) =
        dispatches (log st) @
        (case refresh_fetch (refresh_endpoint env (Suc (length (log st))) rt) of
           Thrown \<Rightarrow> [request_interceptor st config]
         | Access a \<Rightarrow>
             [request_interceptor st config,
              (request_interceptor st config)
                \<lparr>retry := True, authorization := Some (''Bearer '' @ js_string a)\<rparr>])) \<and>
     (refreshes (log (snd (api_part_005 env config st))) = refreshes (log st) @ [rt] \<and>
      dispatches (log (snd (api_part_005 env config st))) =
        dispatches (log st) @
        (case refresh_axios (refresh_endpoint env (Suc (length (log st))) rt) of
           Thrown \<Rightarrow> [request_interceptor st config]
         | Access a \<Rightarrow>
             [request_interceptor st config,
              (request_interceptor st config)
                \<lparr>retry := True, authorization := Some (''Bearer '' @ js_string a)\<rparr>]))"
  unfolding api_js_def api_part_005_def
  by (simp add: api_trace [OF assms] split: refreshed.split)

theorem refresh_once_retry_once_witness:
  "\<not> retry events_request \<and>
   getRefreshToken signed_in = Some ''refresh-1'' \<and>
   respond rejecting_backend (length (log signed_in)) (request_interceptor signed_in events_request)
     = Reply 401 (JsonObj [(''detail'', ''token not valid'')]) \<and>
   refreshes (log (snd (api_js rejecting_backend events_request signed_in))) = [''refresh-1''] \<and>
   dispatches (log (snd (api_js rejecting_backend events_request signed_in))) =
     [events_request\<lparr>authorization := Some ''Bearer old-access''\<rparr>,
      events_request\<lparr>authorization := Some ''Bearer new-access'', retry := True\<rparr>] \<and>
   refreshes (log (snd (api_part_005 rejecting_backend events_request signed_in))) = [''refresh-1''] \<and>
   dispatches (log (snd (api_part_005 rejecting_backend events_request signed_in))) =
     [events_request\<lparr>authorization := Some ''Bearer old-access''\<rparr>,
      events_request\<lparr>authorization := Some ''Bearer new-access'', retry := True\<rparr>]"
  using refresh_once_retry_once [of events_request signed_in "''refresh-1''" rejecting_backend
      "JsonObj [(''detail'', ''token not valid'')]"]
  by (simp add: events_request_def signed_in_def rejecting_backend_def getRefreshToken_def
      getAccessToken_def request_interceptor_def TOKEN_KEY_def REFRESH_TOKEN_KEY_def)


text \<open>
  Claim C7. When the refresh endpoint answers the refresh call with a 2xx status and a JSON
  body that has an access token, the stored access token is afterwards that new token,
  and the suspended request is dispatched once more with exactly the new token in its
  Authorization header, whatever token it carried before. In the trace the retried request
  comes after the refresh call, so it is not dispatched before the refresh has completed.
  This holds for both copies of the API client.
\<close>

theorem refresh_success_replaces_access_token:
  assumes "\<not> retry config" and "getRefreshToken st = Some rt" and "rt \<noteq> []"
    and "respond env (length (log st)) (request_interceptor st config) = Reply 401 d"
    and "refresh_endpoint env (Suc (length (log st))) rt = Reply status (JsonObj members)"
    and "200 \<le> status" and "status < 300"
    and "map_of members ''access'' = Some access"
  shows
    "(getAccessToken (snd (api_js env config st)) = Some access \<and>
      log (snd (api_js env config st)) =
        log st @
        [Sent (request_interceptor st config), Refresh rt,
         Sent ((request_interceptor st config)
                 \<lparr>retry := True, authorization := Some (''Bearer '' @ access)\<rparr>)]) \<and>
     (getAccessToken (snd (api_part_005 env config st)) = Some access \<and>
      log (snd (api_part_005 env config st)) =
        log st @
        [Sent (request_interceptor st config), Refresh rt,
         Sent ((request_interceptor st config)
                 \<lparr>retry := True, authorization := Some (''Bearer '' @ access)\<rparr>)])"
proof -
  have f: "refresh_fetch (refresh_endpoint env (Suc (length (log st))) rt) = Access (Some access)"
    using assms(5,8) by simp
  have a: "refresh_axios (refresh_endpoint env (Suc (length (log st))) rt) = Access (Some access)"
    using assms(5-8) by simp
  show ?thesis
    unfolding api_js_def api_part_005_def
    using api_refresh_access [where refresh = refresh_fetch, OF assms(1-4) f]
      api_refresh_access [where refresh = refresh_axios, OF assms(1-4) a]
    by simp
qed

theorem refresh_success_replaces_access_token_witness:
  "\<not> retry events_request \<and>
   getRefreshToken signed_in = Some ''refresh-1'' \<and>
   getAccessToken signed_in = Some ''old-access'' \<and>
   respond renewing_backend (length (log signed_in)) (request_interceptor signed_in events_request)
     = Reply 401 (JsonObj [(''detail'', ''token not valid'')]) \<and>
   refresh_endpoint renewing_backend (Suc (length (log signed_in))) ''refresh-1''
     = Reply 200 (JsonObj [(''access'', ''new-access'')]) \<and>
   getAccessToken (snd (api_js renewing_backend events_request signed_in)) = Some ''new-access'' \<and>
   log (snd (api_js renewing_backend events_request signed_in)) =
     [Sent (events_request\<lparr>authorization := Some ''Bearer old-access''\<rparr>),
      Refresh ''refresh-1'',
      Sent (events_request\<lparr>authorization := Some ''Bearer new-access'', retry := True\<rparr>)]"
  using refresh_success_replaces_access_token [of events_request signed_in "''refresh-1''"
      renewing_backend "JsonObj [(''detail'', ''token not valid'')]" 200
      "[(''access'', ''new-access'')]" "''new-access''"]
  by (simp add: events_request_def signed_in_def renewing_backend_def getRefreshToken_def
      getAccessToken_def request_interceptor_def TOKEN_KEY_def REFRESH_TOKEN_KEY_def)

text \<open>
  Claim C9. In a refresh cycle (a request fails with 401, a refresh token is stored, and the
  refresh attempt yields an access token) the storage afterwards is the storage before with
  only the access-token slot replaced: \<^verbatim>\<open>setTokens\<close> writes back the refresh token
  that was read before the refresh, so the stored refresh token is unchanged. In no case,
  also when the refresh attempt throws, does the interceptor store a different refresh
  token: afterwards it is the one read before or none. This holds for both copies.
\<close>

theorem refresh_keeps_refresh_token:
  assumes "\<not> retry config" and "getRefreshToken st = Some rt" and "rt \<noteq> []"
    and "respond env (length (log st)) (request_interceptor st config) = Reply 401 d"
  shows
    "(\<forall>a. refresh_fetch (refresh_endpoint env (Suc (length (log st))) rt) = Access a \<longrightarrow>
        localStorage (snd (api_js env config st)) = (localStorage st)(TOKEN_KEY \<mapsto> js_string a) \<and>
        getRefreshToken (snd (api_js env config st)) = Some rt) \<and>
     (\<forall>a. refresh_axios (refresh_endpoint env (Suc (length (log st))) rt) = Access a \<longrightarrow>
        localStorage (snd (api_part_005 env config st)) = (localStorage st)(TOKEN_KEY \<mapsto> js_string a) \<and>
        getRefreshToken (snd (api_part_005 env config st)) = Some rt) \<and>
     (getRefreshToken (snd (api_js env config st)) = Some rt \<or>
      getRefreshToken (snd (api_js env config st)) = None) \<and>
     (getRefreshToken (snd (api_part_005 env config st)) = Some rt \<or>
      getRefreshToken (snd (api_part_005 env config st)) = None)"
proof -
  have cycle: "localStorage (snd (api refresh env config st)) = (localStorage st)(TOKEN_KEY \<mapsto> js_string a) \<and>
      getRefreshToken (snd (api refresh env config st)) = Some rt"
    if "refresh (refresh_endpoint env (Suc (length (log st))) rt) = Access a" for refresh a
    using api_refresh_access [where refresh = refresh, OF assms that] localStorage_setTokens_same [OF assms(2), of a] assms(2)
    by (simp add: getRefreshToken_def)
  have frame: "getRefreshToken (snd (api refresh env config st)) = Some rt \<or>
      getRefreshToken (snd (api refresh env config st)) = None" for refresh
    using api_refresh_token_frame [of refresh env config st] assms(2) by simp
  show ?thesis
    unfolding api_js_def api_part_005_def
    using cycle [of refresh_fetch] cycle [of refresh_axios]
      frame [of refresh_fetch] frame [of refresh_axios]
    by blast
qed

theorem refresh_keeps_refresh_token_witness:
  "\<not> retry events_request \<and>
   getRefreshToken signed_in = Some ''refresh-1'' \<and>
   respond rejecting_backend (length (log signed_in)) (request_interceptor signed_in events_request)
     = Reply 401 (JsonObj [(''detail'', ''token not valid'')]) \<and>
   refresh_fetch (refresh_endpoint rejecting_backend (Suc (length (log signed_in))) ''refresh-1'')
     = Access (Some ''new-access'') \<and>
   localStorage (snd (api_js rejecting_backend events_request signed_in)) =
     [TOKEN_KEY \<mapsto> ''new-access'', REFRESH_TOKEN_KEY \<mapsto> ''refresh-1''] \<and>
   getRefreshToken (snd (api_js rejecting_backend events_request signed_in)) = Some ''refresh-1''"
  using refresh_keeps_refresh_token [of events_request signed_in "''refresh-1''" rejecting_backend
      "JsonObj [(''detail'', ''token not valid'')]"]
  by (simp add: events_request_def signed_in_def rejecting_backend_def getRefreshToken_def
      getAccessToken_def request_interceptor_def TOKEN_KEY_def REFRESH_TOKEN_KEY_def 
      fun_upd_twist)


text \<open>
  Claim C3, evaluated on \<^verbatim>\<open>utils/api.js\<close> where the backend rejects the refresh token
  with status 401 and a JSON error body. The \<^verbatim>\<open>fetch\<close> call does not throw on that
  reply, so the \<^verbatim>\<open>catch\<close> branch is not taken: the text \<^verbatim>\<open>undefined\<close> is stored
  as the access token, the rejected refresh token stays in storage, the request is retried
  with \<^verbatim>\<open>Bearer undefined\<close>, and the page is not sent to the login route. The other
  copy of the file discards both tokens on the same reply (lemma
  \<open>refresh_rejected_part_005\<close>), as does either copy when the refresh attempt throws
  (lemma \<open>refresh_thrown_discards_tokens\<close>).
\<close>

theorem refresh_rejected_tokens_kept:
  "refresh_endpoint revoked_backend 1 ''refresh-1'' =
     Reply 401 (JsonObj [(''detail'', ''Token is invalid or expired''), (''code'', ''token_not_valid'')]) \<and>
   fst (api_js revoked_backend events_request signed_in) =
     Inl (HttpError 401 (JsonObj [(''detail'', ''token not valid'')])) \<and>
   getAccessToken (snd (api_js revoked_backend events_request signed_in)) = Some ''undefined'' \<and>
   getRefreshToken (snd (api_js revoked_backend events_request signed_in)) = Some ''refresh-1'' \<and>
   href (snd (api_js revoked_backend events_request signed_in)) = ''/events'' \<and>
   log (snd (api_js revoked_backend events_request signed_in)) =
     [Sent (events_request\<lparr>authorization := Some ''Bearer old-access''\<rparr>),
      Refresh ''refresh-1'',
      Sent (events_request\<lparr>authorization := Some ''Bearer undefined'', retry := True\<rparr>)]"
proof -
  have a: "\<not> retry events_request" by (simp add: events_request_def)
  have b: "getRefreshToken signed_in = Some ''refresh-1''"
    by (simp add: getRefreshToken_def signed_in_def TOKEN_KEY_def REFRESH_TOKEN_KEY_def)
  have c: "''refresh-1'' \<noteq> []" by simp
  have d: "respond revoked_backend (length (log signed_in))
             (request_interceptor signed_in events_request) =
           Reply 401 (JsonObj [(''detail'', ''token not valid'')])"
    by (simp add: revoked_backend_def)
  have e: "refresh_fetch (refresh_endpoint revoked_backend (Suc (length (log signed_in))) ''refresh-1'')
             = Access None"
    by (simp add: revoked_backend_def)
  show ?thesis
    unfolding api_js_def
    using api_refresh_access [where refresh = refresh_fetch, OF a b c d e]
    by (simp add: revoked_backend_def events_request_def signed_in_def request_interceptor_def
        getAccessToken_def TOKEN_KEY_def REFRESH_TOKEN_KEY_def getRefreshToken_def setTokens_def)
qed



text \<open>
  The writers of token storage leave the two tokens stored together: \<^verbatim>\<open>clearTokens\<close>
  removes both, \<^verbatim>\<open>setTokens\<close> with two non-empty tokens stores both.
\<close>

lemma stored_together_writers:
  "truthy (getAccessToken (clearTokens st)) \<longleftrightarrow> truthy (getRefreshToken (clearTokens st))"
  "a \<noteq> [] \<Longrightarrow> r \<noteq> [] \<Longrightarrow>
     truthy (getAccessToken (setTokens (Some a) (Some r) st)) \<longleftrightarrow>
     truthy (getRefreshToken (setTokens (Some a) (Some r) st))"
  by simp_all






section \<open>Properties of the events page filter\<close>

text \<open>
  Claim C10. An event whose time equals the current time is matched by neither the
  \<^verbatim>\<open>upcoming\<close> filter (strictly after now) nor the \<^verbatim>\<open>past\<close> filter (strictly
  before now), so it is in neither filtered list; the \<^verbatim>\<open>all\<close> filter matches every
  event, so under it an event is listed exactly when it is fetched and matches the search;
  with the \<^verbatim>\<open>all\<close> filter and an empty search term the filtered list is the fetched
  list.
\<close>

theorem boundary_event_filter:
  "(date_time ev = Some now \<longrightarrow>
      \<not> matchesFilter ''upcoming'' now ev \<and> \<not> matchesFilter ''past'' now ev \<and>
      ev \<notin> set (filteredEvents events ''upcoming'' searchTerm now) \<and>
      ev \<notin> set (filteredEvents events ''past'' searchTerm now)) \<and>
   matchesFilter ''all'' now ev \<and>
   (ev \<in> set (filteredEvents events ''all'' searchTerm now) \<longleftrightarrow>
      ev \<in> set events \<and> matchesSearch searchTerm ev) \<and>
   filteredEvents events ''all'' [] now = events"
proof -
  have strict: "\<not> isAfter (Some now) (Some now)" "\<not> isBefore (Some now) (Some now)"
    by simp_all
  have boundary: "\<not> matchesFilter ''upcoming'' now ev \<and> \<not> matchesFilter ''past'' now ev"
    if "date_time ev = Some now"
    using that strict by (simp add: matchesFilter_def)
  have everything: "matchesFilter ''all'' now x" for x
    by (simp add: matchesFilter_def)
  have no_search: "matchesSearch [] x" for x
    by (simp add: matchesSearch_def)
  have "filteredEvents events ''all'' [] now = events"
    using everything no_search by (simp add: filteredEvents_def)
  moreover have "ev \<in> set (filteredEvents events ''all'' searchTerm now) \<longleftrightarrow>
      ev \<in> set events \<and> matchesSearch searchTerm ev"
    using everything by (simp add: filteredEvents_def)
  moreover have "ev \<notin> set (filteredEvents events ''upcoming'' searchTerm now) \<and>
      ev \<notin> set (filteredEvents events ''past'' searchTerm now)"
    if "date_time ev = Some now"
    using boundary [OF that] by (simp add: filteredEvents_def)
  ultimately show ?thesis
    using boundary everything by blast
qed

theorem boundary_event_filter_witness:
  "date_time standup = Some 1000 \<and>
   filteredEvents [standup, later] ''upcoming'' [] 1000 = [later] \<and>
   filteredEvents [standup, later] ''past'' [] 1000 = [] \<and>
   filteredEvents [standup, later] ''all'' [] 1000 = [standup, later]"
  using boundary_event_filter [of standup 1000 "[standup, later]" "[]"]
  by (simp add: standup_def later_def filteredEvents_def matchesFilter_def matchesSearch_def)


text \<open>The search is case-insensitive on the title.\<close>

lemma search_example: "filteredEvents [standup, later] ''all'' ''STAND'' 1000 = [standup]"
  by code_simp


section \<open>Properties of the access-scoped query layer\<close>

lemma set_owned_by [simp]: "set (owned_by ident es) = {e \<in> set es. owner e = ident}"
  by (simp add: owned_by_def)

lemma passes_filters_ignored:
  "\<forall>k \<in> fst ` set ps. allowed k = None \<Longrightarrow> passes_filters allowed ps e"
  by (induction ps) (auto simp: passes_filters_def)

lemma find_owned_by_None:
  "find (\<lambda>e. event_id e = i) (owned_by A es) = None \<longleftrightarrow>
     (\<forall>e \<in> set es. event_id e = i \<longrightarrow> owner e \<noteq> A)"
  by (auto simp: find_None_iff owned_by_def)

lemma find_distinct_id:
  "distinct (map event_id es) \<Longrightarrow> e \<in> set es \<Longrightarrow> P e \<Longrightarrow>
   find (\<lambda>x. event_id x = event_id e \<and> P x) es = Some e"
  by (induction es) (auto simp: rev_image_eqI)

lemma find_owned_by:
  "find (\<lambda>e. event_id e = i) (owned_by A es) = find (\<lambda>e. event_id e = i \<and> owner e = A) es"
  by (induction es) (auto simp: owned_by_def)

lemma get_event_owned:
  assumes "distinct (map event_id (stored store))" and "e \<in> set (stored store)"
  shows "get_event store A (event_id e) = (if owner e = A then Inr e else Inl NotFound)"
proof (cases "owner e = A")
  case True
  then show ?thesis
    using find_distinct_id [OF assms, of "\<lambda>x. owner x = A"]
    by (simp add: get_event_def find_owned_by)
next
  case False
  have "\<forall>x \<in> set (stored store). event_id x = event_id e \<longrightarrow> x = e"
    using assms by (metis (no_types, lifting) distinct_map inj_onD)
  then have "find (\<lambda>x. event_id x = event_id e) (owned_by A (stored store)) = None"
    using False by (auto simp: find_owned_by_None)
  then show ?thesis using False by (simp add: get_event_def)
qed

text \<open>
  Claim C1. The list operation for an identity A returns exactly the events A owns: with no
  query parameters, and with any query parameters outside the allow-list, the result is
  the owned events of the store, all of them and only them. Whatever query parameters the
  client supplies, every returned event is an event of the store owned by A, so no event
  owned by another identity B appears in the result.
\<close>

theorem list_events_scoped:
  "list_events allowed store A [] = owned_by A (stored store) \<and>
   ((\<forall>k \<in> fst ` set ps. allowed k = None) \<longrightarrow>
      list_events allowed store A ps = owned_by A (stored store)) \<and>
   set (owned_by A (stored store)) = {e \<in> set (stored store). owner e = A} \<and>
   (\<forall>e \<in> set (list_events allowed store A ps). e \<in> set (stored store) \<and> owner e = A) \<and>
   (\<forall>B e. B \<noteq> A \<longrightarrow> owner e = B \<longrightarrow> e \<notin> set (list_events allowed store A ps))"
proof -
  have "list_events allowed store A ps = owned_by A (stored store)"
    if "\<forall>k \<in> fst ` set ps. allowed k = None"
    using passes_filters_ignored [OF that] by (simp add: list_events_def)
  moreover have "list_events allowed store A [] = owned_by A (stored store)"
    by (simp add: list_events_def passes_filters_def)
  ultimately show ?thesis
    by (auto simp: list_events_def)
qed

theorem list_events_scoped_witness:
  "list_events title_filter two_users 1 [] = [ada_standup, ada_review] \<and>
   list_events title_filter two_users 1 [(''owner'', ''2'')] = [ada_standup, ada_review] \<and>
   owner bob_party = 2 \<and> bob_party \<in> set (stored two_users) \<and>
   bob_party \<notin> set (list_events title_filter two_users 1 [(''title'', ''Party'')])"
proof -
  have o: "owned_by 1 (stored two_users) = [ada_standup, ada_review]"
    by (simp add: two_users_def owned_by_def ada_standup_def bob_party_def ada_review_def)
  have k: "\<forall>k \<in> fst ` set [(''owner'', ''2'')]. title_filter k = None"
    by (simp add: title_filter_def)
  have b: "owner bob_party = 2" "bob_party \<in> set (stored two_users)"
    by (simp_all add: two_users_def bob_party_def)
  note t1 = list_events_scoped [of title_filter two_users 1 "[(''owner'', ''2'')]"]
  note t2 = list_events_scoped [of title_filter two_users 1 "[(''title'', ''Party'')]"]
  have "list_events title_filter two_users 1 [] = [ada_standup, ada_review]"
    using t1 o by simp
  moreover have "list_events title_filter two_users 1 [(''owner'', ''2'')] = [ada_standup, ada_review]"
    using t1 k o by simp
  moreover have "bob_party \<notin> set (list_events title_filter two_users 1 [(''title'', ''Party'')])"
  proof -
    have "(2::nat) \<noteq> 1" by simp
    with t2 b(1) show ?thesis by blast
  qed
  ultimately show ?thesis using b by simp
qed

text \<open>
  Claim C4. In a store whose event ids are distinct, get for an identity A returns an event
  e exactly when e is the event of that id and A owns it. In every other case the result is
  NotFound and never Forbidden; the result for an existing event of another owner equals
  the result for an id no event has, so the two cannot be told apart.
\<close>

theorem get_event_not_found:
  assumes "distinct (map event_id (stored store))"
  shows
    "(\<forall>e \<in> set (stored store).
        get_event store A (event_id e) = (if owner e = A then Inr e else Inl NotFound)) \<and>
     (\<forall>e. get_event store A i = Inr e \<longleftrightarrow> e \<in> set (stored store) \<and> event_id e = i \<and> owner e = A) \<and>
     ((\<forall>e. get_event store A i \<noteq> Inr e) \<longrightarrow> get_event store A i = Inl NotFound) \<and>
     get_event store A i \<noteq> Inl Forbidden \<and>
     (\<forall>e \<in> set (stored store). owner e \<noteq> A \<longrightarrow> j \<notin> event_id ` set (stored store) \<longrightarrow>
        get_event store A (event_id e) = get_event store A j \<and> get_event store A j = Inl NotFound)"
proof -
  have a: "\<forall>e \<in> set (stored store).
        get_event store A (event_id e) = (if owner e = A then Inr e else Inl NotFound)"
    using get_event_owned [OF assms] by blast
  have b: "get_event store A k = Inl NotFound" if "k \<notin> event_id ` set (stored store)" for k
  proof -
    have "find (\<lambda>x. event_id x = k) (owned_by A (stored store)) = None"
      using that by (auto simp: find_owned_by_None)
    then show ?thesis by (simp add: get_event_def)
  qed
  have c: "get_event store A i = Inr e \<longleftrightarrow> e \<in> set (stored store) \<and> event_id e = i \<and> owner e = A" for e
  proof
    assume "get_event store A i = Inr e"
    then have "find (\<lambda>x. event_id x = i) (owned_by A (stored store)) = Some e"
      by (simp add: get_event_def split: option.splits)
    then show "e \<in> set (stored store) \<and> event_id e = i \<and> owner e = A"
      by (auto simp: find_Some_iff owned_by_def dest: nth_mem)
  next
    assume "e \<in> set (stored store) \<and> event_id e = i \<and> owner e = A"
    then show "get_event store A i = Inr e" using a by auto
  qed
  have d: "get_event store A i = Inl NotFound" if "\<forall>e. get_event store A i \<noteq> Inr e"
    using that by (simp add: get_event_def split: option.splits)
  have f: "get_event store A i \<noteq> Inl Forbidden"
    by (simp add: get_event_def split: option.splits)
  show ?thesis using a b c d f by auto
qed


theorem get_event_not_found_witness:
  "distinct (map event_id (stored two_users)) \<and>
   get_event two_users 1 1 = Inr ada_standup \<and>
   get_event two_users 1 2 = Inl NotFound \<and>
   get_event two_users 1 7 = Inl NotFound"
proof -
  have d: "distinct (map event_id (stored two_users))"
    by (simp add: two_users_def ada_standup_def bob_party_def ada_review_def)
  have m: "ada_standup \<in> set (stored two_users)" "bob_party \<in> set (stored two_users)"
    by (simp_all add: two_users_def)
  have i: "event_id ada_standup = 1" "owner ada_standup = 1" "event_id bob_party = 2" "owner bob_party = 2"
    by (simp_all add: ada_standup_def bob_party_def)
  have n: "7 \<notin> event_id ` set (stored two_users)"
    by (simp add: two_users_def ada_standup_def bob_party_def ada_review_def)
  note t = get_event_not_found [OF d, of 1 1 7]
  have "get_event two_users 1 (event_id ada_standup) = Inr ada_standup"
    using t m(1) i(2) by auto
  moreover have "get_event two_users 1 (event_id bob_party) = Inl NotFound \<and> get_event two_users 1 7 = Inl NotFound"
    using t m(2) i(4) n by auto
  ultimately show ?thesis using d i by simp
qed


section \<open>Properties of share links\<close>

lemma share_id_char_dot_slash: "\<not> share_id_char CHR ''.''" "\<not> share_id_char CHR ''/''"
  by (simp_all add: share_id_char_def)

lemma valid_fresh_id: "valid_share_id fresh_id"
  by (simp add: valid_share_id_def fresh_id_def SHARE_ID_LENGTH_def share_id_char_def)


lemma find_unique:
  assumes "e \<in> set es" and "P e" and "\<forall>x \<in> set es. P x \<longrightarrow> x = e"
  shows "find P es = Some e"
  using assms
proof (induction es)
  case Nil
  then show ?case by simp
next
  case (Cons a es)
  show ?case
  proof (cases "P a")
    case True
    with Cons.prems(3) have "a = e" by simp
    with True show ?thesis by simp
  next
    case False
    with Cons.prems(2) have "a \<noteq> e" by blast
    with Cons.prems(1) have "e \<in> set es" by simp
    moreover have "\<forall>x \<in> set es. P x \<longrightarrow> x = e" using Cons.prems(3) by simp
    ultimately have "find P es = Some e" using Cons.IH Cons.prems(2) by blast
    with False show ?thesis by simp
  qed
qed

lemma resolve_unique:
  assumes "valid_share_id sid" and "x \<in> set (stored s)" and "share_identifier x = Some sid"
    and "\<forall>y \<in> set (stored s). share_identifier y = Some sid \<longrightarrow> y = x"
  shows "resolve s sid = (Inr (public_view s x), [Lookup sid])"
proof -
  have "find (\<lambda>e. share_identifier e = Some sid) (stored s) = Some x"
    by (rule find_unique) (use assms in blast)+
  then show ?thesis using assms(1) by (simp add: resolve_def)
qed

lemma set_replace:
  "e \<in> set es \<Longrightarrow> set (map (\<lambda>x. if x = e then e' else x) es) = insert e' (set es - {e})"
  by auto

lemma event_id_replace:
  "event_id e' = event_id e \<Longrightarrow>
   map event_id (map (\<lambda>x. if x = e then e' else x) es) = map event_id es"
  by (induction es) auto

lemma get_event_other_owner:
  assumes "distinct (map event_id (stored s))" and "e \<in> set (stored s)" and "owner e \<noteq> B"
  shows "get_event s B (event_id e) = Inl NotFound"
  using get_event_owned [OF assms(1,2), of B] assms(3) by simp

lemma generate_links:
  assumes "distinct (map event_id (stored s))" and "share_links_ok (stored s)"
    and "e \<in> set (stored s)" and "owner e = A"
    and "valid_share_id fresh" and "\<forall>x \<in> set (stored s). share_identifier x \<noteq> Some fresh"
  shows "\<exists>sid. generate policy s A (event_id e) fresh =
             (Inr sid, s\<lparr>stored := map (\<lambda>x. if x = e then e\<lparr>share_identifier := Some sid\<rparr> else x) (stored s)\<rparr>) \<and>
           valid_share_id sid \<and>
           (\<forall>y \<in> set (stored s) - {e}. share_identifier y \<noteq> Some sid)"
proof -
  have g: "get_event s A (event_id e) = Inr e"
    using get_event_owned [OF assms(1,3), of A] assms(4) by simp
  show ?thesis
  proof (cases "policy = KeepExisting \<and> share_identifier e \<noteq> None")
    case True
    then obtain sid where sid: "share_identifier e = Some sid" by auto
    have same: "map (\<lambda>x. if x = e then e\<lparr>share_identifier := Some sid\<rparr> else x) (stored s) = stored s"
      using sid by (induction "stored s") (auto simp: map_idI)
    have "generate policy s A (event_id e) fresh = (Inr sid, s)"
      using True sid g by (simp add: generate_def)
    moreover have "valid_share_id sid"
      using assms(2,3) sid by (auto simp: share_links_ok_def)
    moreover have "\<forall>y \<in> set (stored s) - {e}. share_identifier y \<noteq> Some sid"
      using assms(2,3) sid by (auto simp: share_links_ok_def)
    ultimately show ?thesis using same by auto
  next
    case False
    then have "generate policy s A (event_id e) fresh =
        (Inr fresh, s\<lparr>stored := set_share_id e fresh (stored s)\<rparr>)"
      using g by (cases policy; cases "share_identifier e") (simp_all add: generate_def)
    then show ?thesis
      using assms(5,6) by (auto simp: set_share_id_def)
  qed
qed


lemma replace_holder:
  assumes "e \<in> set es" and "share_identifier e' = Some sid"
    and "\<forall>y \<in> set es - {e}. share_identifier y \<noteq> Some sid"
  shows "e' \<in> set (map (\<lambda>x. if x = e then e' else x) es) \<and>
         (\<forall>y \<in> set (map (\<lambda>x. if x = e then e' else x) es). share_identifier y = Some sid \<longrightarrow> y = e')"
proof -
  have "set (map (\<lambda>x. if x = e then e' else x) es) = insert e' (set es - {e})"
    using assms(1) by (rule set_replace)
  then show ?thesis using assms(3) by blast
qed

lemma two_users_ok:
  "distinct (map event_id (stored two_users))" "share_links_ok (stored two_users)"
  "ada_standup \<in> set (stored two_users)" "owner ada_standup = 1" "event_id ada_standup = 1"
  "\<forall>x \<in> set (stored two_users). share_identifier x \<noteq> Some fresh_id"
  by (simp_all add: two_users_def share_links_ok_def ada_standup_def bob_party_def ada_review_def)

text \<open>
  Claim C6. For every malformed share identifier the public resolve operation fails with
  NotFound and makes no lookup in the storage layer: its list of storage accesses is empty
  and its result is the same for every store. An identifier is malformed when its length is
  not the fixed one, when it has a character outside the allowed set, and in particular
  when it contains a dot or a slash, as every path-traversal sequence does.
\<close>

theorem resolve_malformed:
  "(\<not> valid_share_id shareId \<longrightarrow>
      resolve store shareId = (Inl NotFound, []) \<and> resolve store shareId = resolve store' shareId) \<and>
   (length shareId \<noteq> SHARE_ID_LENGTH \<longrightarrow> \<not> valid_share_id shareId) \<and>
   ((\<exists>c \<in> set shareId. \<not> share_id_char c) \<longrightarrow> \<not> valid_share_id shareId) \<and>
   (CHR ''.'' \<in> set shareId \<or> CHR ''/'' \<in> set shareId \<longrightarrow> \<not> valid_share_id shareId)"
  using share_id_char_dot_slash
  by (auto simp: resolve_def valid_share_id_def list_all_iff)

theorem resolve_malformed_witness:
  "\<not> valid_share_id ''../../../../../../../../../../../etc'' \<and>
   length ''../../../../../../../../../../../etc'' = SHARE_ID_LENGTH \<and>
   resolve two_users ''../../../../../../../../../../../etc'' = (Inl NotFound, []) \<and>
   resolve two_users ''abc'' = (Inl NotFound, []) \<and>
   resolve two_users ''0F8FAD5B-D9CB-469F-A165-70867728950E'' = (Inl NotFound, [])"
proof -
  have a: "\<not> valid_share_id ''../../../../../../../../../../../etc''"
    using resolve_malformed [of "''../../../../../../../../../../../etc''" two_users two_users]
    by simp
  have b: "\<not> valid_share_id ''abc''"
    using resolve_malformed [of "''abc''" two_users two_users]
    by (simp add: SHARE_ID_LENGTH_def)
  have c: "\<not> valid_share_id ''0F8FAD5B-D9CB-469F-A165-70867728950E''"
    using resolve_malformed [of "''0F8FAD5B-D9CB-469F-A165-70867728950E''" two_users two_users]
    by (simp add: share_id_char_def)
  show ?thesis
    using a b c resolve_malformed [of "''../../../../../../../../../../../etc''" two_users two_users]
      resolve_malformed [of "''abc''" two_users two_users]
      resolve_malformed [of "''0F8FAD5B-D9CB-469F-A165-70867728950E''" two_users two_users]
    by (simp add: SHARE_ID_LENGTH_def)
qed

text \<open>
  Claim C5. In a store with distinct event ids and sound share links, let identity A own
  the event e and let the identifier drawn for generate be well-formed and unused. Then
  generate succeeds with a share identifier, and resolving that identifier, which takes no
  requester identity, returns the public-safe fields of e: title, time, location,
  description and the display name of the owner. After the owner changes the title,
  resolving the same identifier returns the fields with the new title. The identifier
  belongs to no other event of the store, and it gives no write access: resolve returns no
  store, and an update of e by any identity other than A fails with NotFound and leaves
  the store as it was. This holds for either regeneration policy.
\<close>

theorem share_round_trip:
  assumes "distinct (map event_id (stored store))" and "share_links_ok (stored store)"
    and "e \<in> set (stored store)" and "owner e = A"
    and "valid_share_id fresh" and "\<forall>x \<in> set (stored store). share_identifier x \<noteq> Some fresh"
  shows
    "\<exists>sid store'.
       generate policy store A (event_id e) fresh = (Inr sid, store') \<and>
       resolve store' sid = (Inr (public_view store e), [Lookup sid]) \<and>
       (\<forall>x \<in> set (stored store'). share_identifier x = Some sid \<longrightarrow> event_id x = event_id e) \<and>
       (\<forall>t. t \<noteq> [] \<longrightarrow>
          (\<exists>e' store''. update_title store' A (event_id e) t = (Inr e', store'') \<and>
             fst (resolve store'' sid) = Inr ((public_view store e)\<lparr>pub_title := t\<rparr>))) \<and>
       (\<forall>B t. B \<noteq> A \<longrightarrow> update_title store' B (event_id e) t = (Inl NotFound, store'))"
proof -
  obtain sid where
    gen: "generate policy store A (event_id e) fresh =
            (Inr sid, store\<lparr>stored := map (\<lambda>x. if x = e then e\<lparr>share_identifier := Some sid\<rparr> else x)
                                        (stored store)\<rparr>)"
    and valid: "valid_share_id sid"
    and others: "\<forall>y \<in> set (stored store) - {e}. share_identifier y \<noteq> Some sid"
    using generate_links [OF assms, of policy] by blast
  let ?e1 = "e\<lparr>share_identifier := Some sid\<rparr>"
  let ?s1 = "store\<lparr>stored := map (\<lambda>x. if x = e then ?e1 else x) (stored store)\<rparr>"
  have st1: "stored ?s1 = map (\<lambda>x. if x = e then ?e1 else x) (stored store)" by simp
  have holder1: "?e1 \<in> set (stored ?s1) \<and>
      (\<forall>y \<in> set (stored ?s1). share_identifier y = Some sid \<longrightarrow> y = ?e1)"
    unfolding st1 by (rule replace_holder [OF assms(3) _ others]) simp
  from holder1 have mem1: "?e1 \<in> set (stored ?s1)"
    and uniq1: "\<forall>y \<in> set (stored ?s1). share_identifier y = Some sid \<longrightarrow> y = ?e1"
    by blast+
  have sh1: "share_identifier ?e1 = Some sid" by simp
  have res1: "resolve ?s1 sid = (Inr (public_view store e), [Lookup sid])"
  proof -
    have "resolve ?s1 sid = (Inr (public_view ?s1 ?e1), [Lookup sid])"
      by (rule resolve_unique [OF valid mem1 sh1 uniq1])
    moreover have "public_view ?s1 ?e1 = public_view store e"
      by (simp add: public_view_def)
    ultimately show ?thesis by simp
  qed
  have ids1: "\<forall>x \<in> set (stored ?s1). share_identifier x = Some sid \<longrightarrow> event_id x = event_id e"
  proof (intro ballI impI)
    fix x assume "x \<in> set (stored ?s1)" and "share_identifier x = Some sid"
    then have "x = ?e1" using uniq1 by blast
    then show "event_id x = event_id e" by simp
  qed
  have dist1: "distinct (map event_id (stored ?s1))"
  proof -
    have eq: "map event_id (map (\<lambda>x. if x = e then ?e1 else x) (stored store)) =
        map event_id (stored store)"
      by (rule event_id_replace) simp
    show ?thesis unfolding st1 eq by (rule assms(1))
  qed
  have own1: "owner ?e1 = A" using assms(4) by simp
  have id1: "event_id ?e1 = event_id e" by simp
  have get1: "get_event ?s1 A (event_id e) = Inr ?e1"
    using get_event_owned [OF dist1 mem1, of A] own1 id1 by simp
  have upd: "\<exists>e' store''. update_title ?s1 A (event_id e) t = (Inr e', store'') \<and>
             fst (resolve store'' sid) = Inr ((public_view store e)\<lparr>pub_title := t\<rparr>)"
    if t: "t \<noteq> []" for t
  proof -
    let ?e2 = "?e1\<lparr>ev_title := t\<rparr>"
    let ?s2 = "?s1\<lparr>stored := map (\<lambda>x. if x = ?e1 then ?e2 else x) (stored ?s1)\<rparr>"
    have u: "update_title ?s1 A (event_id e) t = (Inr ?e2, ?s2)"
      unfolding update_title_def get1 using t by simp
    have st2: "stored ?s2 = map (\<lambda>x. if x = ?e1 then ?e2 else x) (stored ?s1)" by simp
    have others2: "\<forall>y \<in> set (stored ?s1) - {?e1}. share_identifier y \<noteq> Some sid"
      using uniq1 by blast
    have sh2: "share_identifier ?e2 = Some sid" by simp
    have holder2: "?e2 \<in> set (stored ?s2) \<and>
        (\<forall>y \<in> set (stored ?s2). share_identifier y = Some sid \<longrightarrow> y = ?e2)"
      unfolding st2 by (rule replace_holder [OF mem1 sh2 others2])
    then have mem2: "?e2 \<in> set (stored ?s2)"
      and uniq2: "\<forall>y \<in> set (stored ?s2). share_identifier y = Some sid \<longrightarrow> y = ?e2"
      by blast+
    have "resolve ?s2 sid = (Inr (public_view ?s2 ?e2), [Lookup sid])"
      by (rule resolve_unique [OF valid mem2 sh2 uniq2])
    moreover have "public_view ?s2 ?e2 = (public_view store e)\<lparr>pub_title := t\<rparr>"
      by (simp add: public_view_def)
    ultimately have "fst (resolve ?s2 sid) = Inr ((public_view store e)\<lparr>pub_title := t\<rparr>)"
      by simp
    with u show ?thesis by blast
  qed
  have foreign: "update_title ?s1 B (event_id e) t = (Inl NotFound, ?s1)" if "B \<noteq> A" for B t
  proof -
    have "owner ?e1 \<noteq> B" using own1 that by simp
    then have "get_event ?s1 B (event_id ?e1) = Inl NotFound"
      by (rule get_event_other_owner [OF dist1 mem1])
    then have "get_event ?s1 B (event_id e) = Inl NotFound" by (simp only: id1)
    then show ?thesis unfolding update_title_def by simp
  qed
  show ?thesis
    using gen res1 ids1 upd foreign by blast
qed


theorem share_round_trip_witness:
  "distinct (map event_id (stored two_users)) \<and>
   ada_standup \<in> set (stored two_users) \<and> owner ada_standup = 1 \<and> valid_share_id fresh_id \<and>
   fst (generate KeepExisting two_users 1 1 fresh_id) = Inr fresh_id \<and>
   fst (resolve (snd (generate KeepExisting two_users 1 1 fresh_id)) fresh_id) =
     Inr \<lparr>pub_title = ''Standup'', pub_time = 1000, pub_location = ''Room 1'',
          pub_description = None, pub_owner_name = ''Ada''\<rparr>"
proof -
  obtain sid store' where
    g: "generate KeepExisting two_users 1 (event_id ada_standup) fresh_id = (Inr sid, store')"
    and r: "resolve store' sid = (Inr (public_view two_users ada_standup), [Lookup sid])"
    using share_round_trip [OF two_users_ok(1-4) valid_fresh_id two_users_ok(6), of KeepExisting]
    by blast
  have "get_event two_users 1 1 = Inr ada_standup"
    using get_event_owned [OF two_users_ok(1,3), of 1] two_users_ok(4,5) by simp
  then have f: "fst (generate KeepExisting two_users 1 1 fresh_id) = Inr fresh_id"
    by (simp add: generate_def ada_standup_def)
  with g have s: "sid = fresh_id" "store' = snd (generate KeepExisting two_users 1 1 fresh_id)"
    by (simp_all add: two_users_ok(5))
  have v: "public_view two_users ada_standup =
      \<lparr>pub_title = ''Standup'', pub_time = 1000, pub_location = ''Room 1'',
       pub_description = None, pub_owner_name = ''Ada''\<rparr>"
    by (simp add: public_view_def two_users_def ada_standup_def)
  show ?thesis
    using r s v two_users_ok(1,3,4) valid_fresh_id f by simp
qed


end
